theory Spec2Isabelle
  imports Complex_Main "HOL-Library.Word"
begin

section \<open>Python strings\<close>

text \<open>
  A Python \<open>str\<close> is modelled as a \<^typ>\<open>string\<close>: a list of characters whose code
  points lie below 256.  On that range \<open>str.isspace\<close> (used by \<open>strip\<close> and by the
  pattern class \<open>\s\<close>) holds for the code points 9-13, 28-32, 133 and 160, and the
  pattern class \<open>\d\<close> holds for the ten ASCII digits.
\<close>

definition is_space :: "char \<Rightarrow> bool" where
  "is_space c = (let n = (of_char c :: nat) in (9 \<le> n \<and> n \<le> 13) \<or> (28 \<le> n \<and> n \<le> 32) \<or> n = 133 \<or> n = 160)"

definition is_digit :: "char \<Rightarrow> bool" where
  "is_digit c = (let n = (of_char c :: nat) in 48 \<le> n \<and> n \<le> 57)"

definition not_space :: "char \<Rightarrow> bool" where
  "not_space c = (\<not> is_space c)"

definition digit_or_dot :: "char \<Rightarrow> bool" where
  "digit_or_dot c = (is_digit c \<or> c = CHR ''.'')"

text \<open>The pattern \<open>.\<close> (without DOTALL): every character but the newline.\<close>

definition any_char :: "char \<Rightarrow> bool" where
  "any_char c = (c \<noteq> CHR 0x0A)"

definition not_chr :: "char \<Rightarrow> char \<Rightarrow> bool" where
  "not_chr x c = (c \<noteq> x)"

definition lstrip :: "string \<Rightarrow> string" where
  "lstrip s = dropWhile is_space s"

definition rstrip :: "string \<Rightarrow> string" where
  "rstrip s = rev (dropWhile is_space (rev s))"

definition strip :: "string \<Rightarrow> string" where
  "strip s = rstrip (lstrip s)"

text \<open>\<open>s.startswith(p)\<close>.\<close>

fun startswith :: "string \<Rightarrow> string \<Rightarrow> bool" where
  "startswith s [] = True"
| "startswith [] (p # ps) = False"
| "startswith (c # cs) (p # ps) = (c = p \<and> startswith cs ps)"

text \<open>\<open>sub in s\<close> for strings: \<open>sub\<close> occurs in \<open>s\<close> at some offset.\<close>

fun contains :: "string \<Rightarrow> string \<Rightarrow> bool" where
  "contains [] sub = startswith [] sub"
| "contains (c # cs) sub = (startswith (c # cs) sub \<or> contains cs sub)"

text \<open>\<open>sep.join(xs)\<close>.\<close>

fun join :: "string \<Rightarrow> string list \<Rightarrow> string" where
  "join sep [] = []"
| "join sep [x] = x"
| "join sep (x # y # ys) = x @ sep @ join sep (y # ys)"


section \<open>Regular expressions\<close>

text \<open>
  The patterns of the source are written as values of \<open>regex\<close>.  Every repetition in
  them (\<open>*\<close>, \<open>+\<close>, \<open>*?\<close>) ranges over a single character class, so \<open>Star\<close>
  (greedy) and \<open>Lazy\<close> (non-greedy) take a class.  \<open>matches r s g\<close> lists the ways
  \<open>r\<close> matches a prefix of \<open>s\<close>, in the order in which Python's backtracking
  matcher tries them; each is the unread rest of \<open>s\<close> and the groups captured so
  far (the most recent first).  The first element is the match Python reports.
\<close>

datatype regex =
    Eps
  | Chr "char \<Rightarrow> bool"
  | Lit string
  | Seq regex regex
  | Alt regex regex
  | Star "char \<Rightarrow> bool"
  | Lazy "char \<Rightarrow> bool"
  | Group nat regex

type_synonym groups = "(nat \<times> string) list"

type_synonym rmatch = "string \<times> groups"

fun star_greedy :: "(char \<Rightarrow> bool) \<Rightarrow> string \<Rightarrow> string list" where
  "star_greedy P [] = [[]]"
| "star_greedy P (c # cs) = (if P c then star_greedy P cs @ [c # cs] else [c # cs])"

fun star_lazy :: "(char \<Rightarrow> bool) \<Rightarrow> string \<Rightarrow> string list" where
  "star_lazy P [] = [[]]"
| "star_lazy P (c # cs) = (c # cs) # (if P c then star_lazy P cs else [])"

fun matches :: "regex \<Rightarrow> string \<Rightarrow> groups \<Rightarrow> rmatch list" where
  "matches Eps s g = [(s, g)]"
| "matches (Chr P) s g = (case s of [] \<Rightarrow> [] | c # cs \<Rightarrow> if P c then [(cs, g)] else [])"
| "matches (Lit l) s g = (if startswith s l then [(drop (length l) s, g)] else [])"
| "matches (Seq r1 r2) s g = concat (map (\<lambda>m. matches r2 (fst m) (snd m)) (matches r1 s g))"
| "matches (Alt r1 r2) s g = matches r1 s g @ matches r2 s g"
| "matches (Star P) s g = map (\<lambda>s'. (s', g)) (star_greedy P s)"
| "matches (Lazy P) s g = map (\<lambda>s'. (s', g)) (star_lazy P s)"
| "matches (Group n r) s g =
     map (\<lambda>m. (fst m, (n, take (length s - length (fst m)) s) # snd m)) (matches r s g)"

text \<open>\<open>re.match(r, s)\<close>: a match at offset 0 (this is also what a leading \<open>^\<close> asks for).\<close>

definition re_match :: "regex \<Rightarrow> string \<Rightarrow> rmatch option" where
  "re_match r s = (case matches r s [] of [] \<Rightarrow> None | m # _ \<Rightarrow> Some m)"

text \<open>\<open>re.search(r, s)\<close>: the match at the leftmost offset that has one.\<close>

fun re_search :: "regex \<Rightarrow> string \<Rightarrow> rmatch option" where
  "re_search r [] = re_match r []"
| "re_search r (c # cs) =
     (case re_match r (c # cs) of Some m \<Rightarrow> Some m | None \<Rightarrow> re_search r cs)"

text \<open>\<open>match.group(n)\<close>: \<open>None\<close> for a group that took no part in the match.\<close>

definition match_group :: "rmatch \<Rightarrow> nat \<Rightarrow> string option" where
  "match_group m n = map_of (snd m) n"

text \<open>
  \<open>re.sub(r, "", s)\<close> for a pattern that starts with \<open>^\<close> and cannot match the empty
  string: only a match at offset 0 is replaced.
\<close>

definition re_sub_start :: "regex \<Rightarrow> string \<Rightarrow> string" where
  "re_sub_start r s = (case re_match r s of None \<Rightarrow> s | Some m \<Rightarrow> fst m)"

definition plus :: "(char \<Rightarrow> bool) \<Rightarrow> regex" where
  "plus P = Seq (Chr P) (Star P)"

definition opt :: "regex \<Rightarrow> regex" where
  "opt r = Alt r Eps"

fun seqs :: "regex list \<Rightarrow> regex" where
  "seqs [] = Eps"
| "seqs [r] = r"
| "seqs (r # rs) = Seq r (seqs rs)"

fun alts :: "regex list \<Rightarrow> regex" where
  "alts [] = Eps"
| "alts [r] = r"
| "alts (r # rs) = Alt r (alts rs)"

text \<open>\<open>\d{4}-\d{2}-\d{2}\<close>\<close>

definition date_re :: regex where
  "date_re = seqs [Chr is_digit, Chr is_digit, Chr is_digit, Chr is_digit, Lit ''-'',
                   Chr is_digit, Chr is_digit, Lit ''-'', Chr is_digit, Chr is_digit]"

section \<open>Data model (parsing.py)\<close>

datatype Level = ERROR | WARNING

record Issue =
  level :: Level
  source :: string
  message :: string
  file' :: "string option"
  code :: "string option"
  output' :: "string option"

record BuildInfo =
  server_url :: "string option"
  build_dir :: "string option"
  build_time :: "string option"

datatype ChunkBoundary =
    BUILD_COMPLETE
  | SERVER_STARTED
  | REBUILD_STARTED
  | ERROR_BLOCK_END
  | NONE

section \<open>detect_chunk_boundary\<close>

text \<open>\<open>Documentation built in [\d.]+ seconds\<close>\<close>

definition built_re :: regex where
  "built_re = seqs [Lit ''Documentation built in '', plus digit_or_dot, Lit '' seconds'']"

text \<open>\<open>Serving on https?://\<close>\<close>

definition serving_re :: regex where
  "serving_re = seqs [Lit ''Serving on http'', opt (Lit ''s''), Lit ''://'']"

text \<open>\<open>^(INFO|WARNING|ERROR)\s*-\<close>\<close>

definition level_dash_re :: regex where
  "level_dash_re =
     seqs [Group 1 (alts [Lit ''INFO'', Lit ''WARNING'', Lit ''ERROR'']), Star is_space, Lit ''-'']"

text \<open>\<open>^\d{4}-\d{2}-\d{2}.*?(INFO|WARNING|ERROR)\<close>\<close>

definition date_level_re :: regex where
  "date_level_re =
     seqs [date_re, Lazy any_char, Group 1 (alts [Lit ''INFO'', Lit ''WARNING'', Lit ''ERROR''])]"

definition detect_chunk_boundary :: "string \<Rightarrow> string option \<Rightarrow> ChunkBoundary" where
  "detect_chunk_boundary line prev_line =
     (let stripped = strip line in
      if re_search built_re line \<noteq> None then BUILD_COMPLETE
      else if re_search serving_re line \<noteq> None then SERVER_STARTED
      else if contains line ''Detected file changes'' \<or> contains line ''Reloading docs''
        then REBUILD_STARTED
      else if re_match date_re stripped \<noteq> None \<and> contains line ''Building documentation''
        then REBUILD_STARTED
      else if (case prev_line of None \<Rightarrow> False | Some p \<Rightarrow> strip p = [])
              \<and> re_match level_dash_re stripped \<noteq> None
        then ERROR_BLOCK_END
      else if (case prev_line of None \<Rightarrow> False | Some p \<Rightarrow> strip p = [])
              \<and> re_match date_level_re stripped \<noteq> None
        then ERROR_BLOCK_END
      else NONE)"

section \<open>Errors and indexing\<close>

text \<open>The exceptions the modelled statements could raise.\<close>

datatype py_error = IndexError | TypeError | AttributeError | KeyError

text \<open>\<open>xs[i]\<close>: a negative index counts from the end; outside the list it raises.\<close>

definition py_index :: "'a list \<Rightarrow> int \<Rightarrow> py_error + 'a" where
  "py_index xs i =
     (if 0 \<le> i \<and> i < int (length xs) then Inr (xs ! nat i)
      else if i < 0 \<and> - int (length xs) \<le> i then Inr (xs ! nat (int (length xs) + i))
      else Inl IndexError)"

text \<open>\<open>range(a, b, -1)\<close>: \<open>a, a - 1, ...\<close> down to \<open>b + 1\<close>.\<close>

definition range_down :: "int \<Rightarrow> int \<Rightarrow> int list" where
  "range_down a b = map (\<lambda>k. a - int k) [0..<nat (a - b)]"

section \<open>extract_build_info\<close>

text \<open>\<open>Serving on (https?://\S+)\<close>\<close>

definition server_url_re :: regex where
  "server_url_re =
     seqs [Lit ''Serving on '',
           Group 1 (seqs [Lit ''http'', opt (Lit ''s''), Lit ''://'', plus not_space])]"

text \<open>\<open>Documentation built in ([\d.]+) seconds\<close>\<close>

definition build_time_re :: regex where
  "build_time_re =
     seqs [Lit ''Documentation built in '', Group 1 (plus digit_or_dot), Lit '' seconds'']"

text \<open>\<open>Building documentation to directory: (.+)\<close>\<close>

definition build_dir_re :: regex where
  "build_dir_re = seqs [Lit ''Building documentation to directory: '', Group 1 (plus any_char)]"

text \<open>The body of the loop over the lines: the three tests, in the order of the source.\<close>

definition extract_line :: "BuildInfo \<Rightarrow> string \<Rightarrow> py_error + BuildInfo" where
  "extract_line info line =
     (let info1 = (case re_search server_url_re line of
                     Some m \<Rightarrow> info\<lparr>server_url := match_group m 1\<rparr>
                   | None \<Rightarrow> info);
          info2 = (case re_search build_time_re line of
                     Some m \<Rightarrow> info1\<lparr>build_time := match_group m 1\<rparr>
                   | None \<Rightarrow> info1)
      in case re_search build_dir_re line of
           Some m \<Rightarrow>
             (case match_group m 1 of
                None \<Rightarrow> Inl AttributeError
              | Some d \<Rightarrow> Inr (info2\<lparr>build_dir := Some (strip d)\<rparr>))
         | None \<Rightarrow> Inr info2)"

fun extract_loop :: "BuildInfo \<Rightarrow> string list \<Rightarrow> py_error + BuildInfo" where
  "extract_loop info [] = Inr info"
| "extract_loop info (line # lines) =
     (case extract_line info line of Inl e \<Rightarrow> Inl e | Inr info' \<Rightarrow> extract_loop info' lines)"

definition extract_build_info :: "string list \<Rightarrow> py_error + BuildInfo" where
  "extract_build_info lines =
     extract_loop \<lparr>server_url = None, build_dir = None, build_time = None\<rparr> lines"

section \<open>parse_markdown_exec_issue\<close>

text \<open>\<open>DEBUG\s*-\s*Reading:\s*(\S+\.md)\<close>\<close>

definition reading_re :: regex where
  "reading_re =
     seqs [Lit ''DEBUG'', Star is_space, Lit ''-'', Star is_space, Lit ''Reading:'', Star is_space,
           Group 1 (seqs [plus not_space, Lit ''.md''])]"

text \<open>\<open>Generated breadcrumb string:.*\[([^\]]+)\]\(/([^)]+)\)\<close>\<close>

definition breadcrumb_re :: regex where
  "breadcrumb_re =
     seqs [Lit ''Generated breadcrumb string:'', Star any_char, Lit ''['',
           Group 1 (plus (not_chr CHR '']'')), Lit ''](/'',
           Group 2 (plus (not_chr CHR '')'')), Lit '')'']"

text \<open>\<open>Doc file '([^']+\.md)'\<close>\<close>

definition doc_file_re :: regex where
  "doc_file_re =
     seqs [Lit (''Doc file '' @ [CHR 0x27]),
           Group 1 (seqs [plus (not_chr (CHR 0x27)), Lit ''.md'']), Lit [CHR 0x27]]"

text \<open>\<open>^(INFO|DEBUG|WARNING|ERROR)\s*-\<close>\<close>

definition log_line_re :: regex where
  "log_line_re =
     seqs [Group 1 (alts [Lit ''INFO'', Lit ''DEBUG'', Lit ''WARNING'', Lit ''ERROR'']),
           Star is_space, Lit ''-'']"

text \<open>\<open>^\[stderr\]\<close>\<close>

definition stderr_re :: regex where
  "stderr_re = Lit ''[stderr]''"

text \<open>\<open>File "<code block: session ([^;]+); n(\d+)>", line (\d+)\<close>\<close>

definition traceback_re :: regex where
  "traceback_re =
     seqs [Lit (''File '' @ [CHR 0x22] @ ''<code block: session ''),
           Group 1 (plus (not_chr CHR '';'')), Lit ''; n'', Group 2 (plus is_digit),
           Lit (''>'' @ [CHR 0x22] @ '', line ''), Group 3 (plus is_digit)]"

text \<open>
  The backward loop \<open>for j in range(start - 1, max(-1, start - 50), -1)\<close>, over the
  list of its indices; a \<open>break\<close> is a return of the path found.
\<close>

fun find_file_path :: "string list \<Rightarrow> int list \<Rightarrow> py_error + string option" where
  "find_file_path lines [] = Inr None"
| "find_file_path lines (j # js) =
     (case py_index lines j of
        Inl e \<Rightarrow> Inl e
      | Inr prev_line \<Rightarrow>
          (case re_search reading_re prev_line of
             Some m \<Rightarrow> Inr (match_group m 1)
           | None \<Rightarrow>
               (case re_search breadcrumb_re prev_line of
                  Some m \<Rightarrow>
                    (case match_group m 2 of
                       None \<Rightarrow> Inl TypeError
                     | Some potential \<Rightarrow> Inr (Some (potential @ ''.md'')))
                | None \<Rightarrow>
                    (case re_search doc_file_re prev_line of
                       Some m \<Rightarrow> Inr (match_group m 1)
                     | None \<Rightarrow> find_file_path lines js))))"

text \<open>The local variables of the forward loop.\<close>

record scan_state =
  code_lines :: "string list"
  output_lines :: "string list"
  in_code :: bool
  in_output :: bool
  session_info :: "string option"
  line_number :: "string option"

definition scan_init :: scan_state where
  "scan_init = \<lparr>code_lines = [], output_lines = [], in_code = False, in_output = False,
                 session_info = None, line_number = None\<rparr>"

text \<open>The three stop conditions of the forward loop, on the stripped line.\<close>

definition is_stop_line :: "string \<Rightarrow> bool" where
  "is_stop_line stripped =
     (re_match log_line_re stripped \<noteq> None
      \<or> re_match date_re stripped \<noteq> None
      \<or> re_match stderr_re stripped \<noteq> None)"

text \<open>The part of the loop body under "Collect content".\<close>

definition collect_content :: "scan_state \<Rightarrow> string \<Rightarrow> scan_state" where
  "collect_content st line =
     (let stripped = strip line in
      if in_code st \<and> stripped \<noteq> [] then st\<lparr>code_lines := code_lines st @ [rstrip line]\<rparr>
      else if in_output st \<and> stripped \<noteq> [] then
        (let st' = st\<lparr>output_lines := output_lines st @ [rstrip line]\<rparr> in
         case re_search traceback_re stripped of
           Some m \<Rightarrow> st'\<lparr>session_info := match_group m 1, line_number := match_group m 3\<rparr>
         | None \<Rightarrow> st')
      else st)"

function collect_sections :: "string list \<Rightarrow> int \<Rightarrow> scan_state \<Rightarrow> py_error + (scan_state \<times> int)" where
  "collect_sections lines i st =
     (if i < int (length lines) then
        (case py_index lines i of
           Inl e \<Rightarrow> Inl e
         | Inr line \<Rightarrow>
             if strip line = ''Code block is:''
               then collect_sections lines (i + 1) (st\<lparr>in_code := True, in_output := False\<rparr>)
             else if strip line = ''Output is:''
               then collect_sections lines (i + 1) (st\<lparr>in_code := False, in_output := True\<rparr>)
             else if is_stop_line (strip line) then Inr (st, i)
             else collect_sections lines (i + 1) (collect_content st line))
      else Inr (st, i))"
  by pat_completeness auto
termination
  by (relation "measure (\<lambda>(lines, i, st). nat (int (length lines) - i))") auto

text \<open>The loop \<open>for line in reversed(output_lines)\<close>, over the reversed list.\<close>

fun find_error_msg :: "string list \<Rightarrow> string" where
  "find_error_msg [] = ''Code execution failed''"
| "find_error_msg (l # ls) =
     (if strip l \<noteq> []
         \<and> (contains (strip l) ''Error:'' \<or> contains (strip l) ''Exception:'')
         \<and> \<not> startswith (strip l) ''File ''
      then strip l
      else find_error_msg ls)"

text \<open>
  The separator of the location parts, as the source file has it: a space, three
  characters beyond ASCII (the bytes C3 A2, E2 80 A0, E2 80 99 in UTF-8, two of them code
  points above 255, written here as their bytes) and a space.
\<close>

definition location_sep :: string where
  "location_sep = [CHR '' '', CHR 0xC3, CHR 0xA2, CHR 0xE2, CHR 0x80, CHR 0xA0,
                   CHR 0xE2, CHR 0x80, CHR 0x99, CHR '' '']"

text \<open>\<open>if v: parts.append(f v)\<close>: the part of a value that is neither \<open>None\<close> nor empty.\<close>

fun part_of :: "(string \<Rightarrow> string) \<Rightarrow> string option \<Rightarrow> string list" where
  "part_of f None = []"
| "part_of f (Some v) = (if v = [] then [] else [f v])"

text \<open>\<open>sep.join(xs) if xs else None\<close>\<close>

definition join_opt :: "string \<Rightarrow> string list \<Rightarrow> string option" where
  "join_opt sep xs = (if xs = [] then None else Some (join sep xs))"

definition parse_markdown_exec_issue ::
  "string list \<Rightarrow> int \<Rightarrow> Level \<Rightarrow> py_error + (Issue option \<times> int)" where
  "parse_markdown_exec_issue lines start lvl =
     (case find_file_path lines (range_down (start - 1) (max (- 1) (start - 50))) of
        Inl e \<Rightarrow> Inl e
      | Inr file_path \<Rightarrow>
          (case collect_sections lines (start + 1) scan_init of
             Inl e \<Rightarrow> Inl e
           | Inr (st, i) \<Rightarrow>
               (let error_msg = find_error_msg (rev (output_lines st));
                    location_parts =
                      part_of (\<lambda>v. v) file_path
                      @ part_of (\<lambda>v. ''session '' @ [CHR 0x27] @ v @ [CHR 0x27]) (session_info st)
                      @ part_of (\<lambda>v. ''line '' @ v) (line_number st)
                in Inr (Some \<lparr>level = lvl, source = ''markdown_exec'', message = error_msg,
                              file' = join_opt location_sep location_parts,
                              code = join_opt [CHR 0x0A] (code_lines st),
                              output' = join_opt [CHR 0x0A] (output_lines st)\<rparr>,
                        i))))"

declare collect_sections.simps [simp del]

text \<open>The forward loop never moves backwards (needed for the termination of the caller).\<close>

lemma collect_sections_end:
  "collect_sections lines i st = Inr (st', e) \<Longrightarrow> i \<le> e"
proof (induction lines i st rule: collect_sections.induct)
  case (1 lines i st)
  show ?case
  proof (cases "i < int (length lines)")
    case False
    with "1.prems" show ?thesis by (subst (asm) collect_sections.simps) simp
  next
    case True
    have unf: "collect_sections lines i st =
        (case py_index lines i of
           Inl e \<Rightarrow> Inl e
         | Inr line \<Rightarrow>
             if strip line = ''Code block is:''
               then collect_sections lines (i + 1) (st\<lparr>in_code := True, in_output := False\<rparr>)
             else if strip line = ''Output is:''
               then collect_sections lines (i + 1) (st\<lparr>in_code := False, in_output := True\<rparr>)
             else if is_stop_line (strip line) then Inr (st, i)
             else collect_sections lines (i + 1) (collect_content st line))"
      using True by (subst collect_sections.simps) simp
    then obtain line where line: "py_index lines i = Inr line"
      using "1.prems" by (cases "py_index lines i") auto
    show ?thesis
      using "1.IH"(1)[OF True line] "1.IH"(2)[OF True line] "1.IH"(3)[OF True line]
        "1.prems" line unfolding unf
      by (auto split: if_splits)
  qed
qed

lemma parse_markdown_exec_issue_end:
  "parse_markdown_exec_issue lines start lvl = Inr (r, e) \<Longrightarrow> start < e"
  by (auto simp: parse_markdown_exec_issue_def Let_def split: sum.splits dest!: collect_sections_end)

declare parse_markdown_exec_issue_def [simp del]

section \<open>parse_mkdocs_output\<close>

text \<open>\<open>^\[stderr\]\s*\<close>\<close>

definition stderr_prefix_re :: regex where
  "stderr_prefix_re = seqs [Lit ''[stderr]'', Star is_space]"

text \<open>\<open>^\d{4}-\d{2}-\d{2}.*?-\s*\<close>\<close>

definition date_prefix_re :: regex where
  "date_prefix_re = seqs [date_re, Lazy any_char, Lit ''-'', Star is_space]"

text \<open>\<open>^(WARNING|ERROR)\s*-?\s*\<close>\<close>

definition level_prefix_re :: regex where
  "level_prefix_re =
     seqs [Group 1 (alts [Lit ''WARNING'', Lit ''ERROR'']), Star is_space, opt (Lit ''-''),
           Star is_space]"

text \<open>\<open>'([^']+\.md)'\<close> and \<open>"([^"]+\.md)"\<close>\<close>

definition quoted_md_re :: "char \<Rightarrow> regex" where
  "quoted_md_re q = seqs [Lit [q], Group 1 (seqs [plus (not_chr q), Lit ''.md'']), Lit [q]]"

text \<open>
  The rest of the loop body for a line that holds WARNING or ERROR and was not taken as
  a markdown_exec block: the issues list after it.
\<close>

definition regular_issue :: "Level \<Rightarrow> string \<Rightarrow> Issue list \<Rightarrow> Issue list" where
  "regular_issue lvl line issues =
     (if startswith (strip line) ''raise '' \<or> startswith (strip line) ''File '' then issues
      else
        (let message = re_sub_start level_prefix_re
                         (re_sub_start date_prefix_re (re_sub_start stderr_prefix_re line))
         in if strip message \<noteq> [] then
              issues @ [\<lparr>level = lvl, source = ''mkdocs'', message = strip message,
                          file' = (case re_search (quoted_md_re (CHR 0x27)) message of
                                     Some m \<Rightarrow> match_group m 1
                                   | None \<Rightarrow>
                                       (case re_search (quoted_md_re (CHR 0x22)) message of
                                          Some m \<Rightarrow> match_group m 1
                                        | None \<Rightarrow> None)),
                          code = None, output' = None\<rparr>]
            else issues))"

function parse_loop :: "string list \<Rightarrow> int \<Rightarrow> int \<Rightarrow> Issue list \<Rightarrow> py_error + Issue list" where
  "parse_loop lines i skip_until issues =
     (if i < int (length lines) then
        (if i < skip_until then parse_loop lines (i + 1) skip_until issues
         else
           (case py_index lines i of
              Inl e \<Rightarrow> Inl e
            | Inr line \<Rightarrow>
                if contains line ''WARNING'' \<or> contains line ''ERROR'' then
                  (if contains line ''markdown_exec'' then
                     (case parse_markdown_exec_issue lines i
                             (if contains line ''ERROR'' then ERROR else WARNING) of
                        Inl e \<Rightarrow> Inl e
                      | Inr (Some issue, end_idx) \<Rightarrow>
                          parse_loop lines end_idx end_idx (issues @ [issue])
                      | Inr (None, end_idx) \<Rightarrow>
                          parse_loop lines (i + 1) skip_until
                            (regular_issue (if contains line ''ERROR'' then ERROR else WARNING)
                               line issues))
                   else
                     parse_loop lines (i + 1) skip_until
                       (regular_issue (if contains line ''ERROR'' then ERROR else WARNING)
                          line issues))
                else parse_loop lines (i + 1) skip_until issues))
      else Inr issues)"
  by pat_completeness auto
termination
proof (relation "measure (\<lambda>(lines, i, skip_until, issues). nat (int (length lines) - i))")
  show "wf (measure (\<lambda>(lines, i, skip_until, issues). nat (int (length lines) - i)))"
    by simp
qed (auto dest: parse_markdown_exec_issue_end)

definition parse_mkdocs_output :: "string list \<Rightarrow> py_error + Issue list" where
  "parse_mkdocs_output lines = parse_loop lines 0 (- 1) []"

declare parse_loop.simps [simp del]

section \<open>SHA-256\<close>























section \<open>The MCP server (mcp_server.py)\<close>

text \<open>
  Modelled from the spec: the snapshot that \<open>read_state_file\<close> returns (state.py is not
  among the sources): a timestamp, the build status and start time, and the current
  cycle's issues, info messages, build info and raw lines.  The fields are those that
  \<open>_refresh_from_state_file\<close> reads; the types of an issue, an info message and the
  build info are parameters.
\<close>

record ('i, 'm, 'b) StateFileData =
  state_build_status :: string
  state_build_started_at :: "real option"
  state_timestamp :: real
  state_issues :: "'i list"
  state_info_messages :: "'m list"
  state_build_info :: 'b
  state_raw_output :: "string list"

text \<open>The attributes of \<open>DocsFilterServer\<close> that \<open>__init__\<close> sets.\<close>

record ('i, 'm, 'b) DocsFilterServer =
  project_dir :: "string option"
  pipe_mode :: bool
  watch_mode :: bool
  issues :: "'i list"
  info_messages :: "'m list"
  build_info :: 'b
  raw_output :: "string list"
  issue_ids :: "string \<rightharpoonup> string"
  last_state_timestamp :: real
  build_status :: string
  build_started_at :: "real option"

text \<open>\<open>__init__\<close>; the empty build info is passed in.\<close>

definition init_server :: "string option \<Rightarrow> bool \<Rightarrow> bool \<Rightarrow> 'b \<Rightarrow> ('i, 'm, 'b) DocsFilterServer" where
  "init_server dir pipe watch empty_info =
     \<lparr>project_dir = dir, pipe_mode = pipe, watch_mode = watch, issues = [], info_messages = [],
      build_info = empty_info, raw_output = [], issue_ids = Map.empty,
      last_state_timestamp = 0, build_status = ''complete'', build_started_at = None\<rparr>"

text \<open>
  \<open>_refresh_from_state_file\<close>; the first argument is what \<open>read_state_file\<close> returned.
\<close>

definition refresh_from_state_file ::
  "('i, 'm, 'b) StateFileData option \<Rightarrow> ('i, 'm, 'b) DocsFilterServer
     \<Rightarrow> bool \<times> ('i, 'm, 'b) DocsFilterServer" where
  "refresh_from_state_file read_result self =
     (if \<not> watch_mode self then (False, self)
      else
        (case read_result of
           None \<Rightarrow> (False, self)
         | Some state \<Rightarrow>
             (let self1 = self\<lparr>build_status := state_build_status state,
                                build_started_at := state_build_started_at state\<rparr>
              in if state_timestamp state \<le> last_state_timestamp self1 then (False, self1)
                 else (True, self1\<lparr>last_state_timestamp := state_timestamp state,
                                    issues := state_issues state,
                                    info_messages := state_info_messages state,
                                    build_info := state_build_info state,
                                    raw_output := state_raw_output state\<rparr>))))"





section \<open>Notions used in the statements\<close>

text \<open>The groups every match of a pattern has captured.\<close>

fun captures :: "regex \<Rightarrow> nat set" where
  "captures (Group n r) = insert n (captures r)"
| "captures (Seq r1 r2) = captures r1 \<union> captures r2"
| "captures (Alt r1 r2) = captures r1 \<inter> captures r2"
| "captures r = {}"

text \<open>The match of the last line of a list that a pattern matches somewhere.\<close>

definition last_match :: "regex \<Rightarrow> string list \<Rightarrow> rmatch option" where
  "last_match r lines =
     (case filter (\<lambda>l. re_search r l \<noteq> None) lines of
        [] \<Rightarrow> None
      | l # ls \<Rightarrow> re_search r (last (l # ls)))"

text \<open>A line of the block that is neither a section marker nor a top-level log line.\<close>

definition plain_line :: "string \<Rightarrow> bool" where
  "plain_line l = (strip l \<noteq> ''Code block is:'' \<and> strip l \<noteq> ''Output is:''
                   \<and> \<not> is_stop_line (strip l))"

definition nonblank :: "string \<Rightarrow> bool" where
  "nonblank l = (strip l \<noteq> [])"

text \<open>The forward loop as a recursion over the lines still to read: the final state and
  the number of lines read.\<close>

fun scan_list :: "string list \<Rightarrow> scan_state \<Rightarrow> scan_state \<times> nat" where
  "scan_list [] st = (st, 0)"
| "scan_list (line # ls) st =
     (if strip line = ''Code block is:''
        then (case scan_list ls (st\<lparr>in_code := True, in_output := False\<rparr>) of
                (s, k) \<Rightarrow> (s, Suc k))
      else if strip line = ''Output is:''
        then (case scan_list ls (st\<lparr>in_code := False, in_output := True\<rparr>) of
                (s, k) \<Rightarrow> (s, Suc k))
      else if is_stop_line (strip line) then (st, 0)
      else (case scan_list ls (collect_content st line) of (s, k) \<Rightarrow> (s, Suc k)))"

text \<open>The test of the reverse loop, on a stripped line.\<close>

definition error_line :: "string \<Rightarrow> bool" where
  "error_line l = (l \<noteq> [] \<and> (contains l ''Error:'' \<or> contains l ''Exception:'')
                   \<and> \<not> startswith l ''File '')"

section \<open>The Deduplicator\<close>




section \<open>The identifier cache\<close>



section \<open>Facts about the matcher\<close>

lemma startswith_append: "startswith (l @ s) l"
  by (induction l) auto

lemma matches_Lit_append: "matches (Lit l) (l @ s) g = [(s, g)]"
  by (simp add: startswith_append)

lemma star_greedy_self: "s \<in> set (star_greedy P s)"
  by (cases s) auto

lemma star_greedy_run: "list_all P ds \<Longrightarrow> s \<in> set (star_greedy P (ds @ s))"
  by (induction ds) (auto simp: star_greedy_self)

lemma matches_plus_run:
  "ds \<noteq> [] \<Longrightarrow> list_all P ds \<Longrightarrow> (s, g) \<in> set (matches (plus P) (ds @ s) g)"
  by (cases ds) (auto simp: plus_def star_greedy_run)

lemma matches_Seq_iff:
  "m \<in> set (matches (Seq r1 r2) s g) \<longleftrightarrow>
     (\<exists>m1 \<in> set (matches r1 s g). m \<in> set (matches r2 (fst m1) (snd m1)))"
  by auto

lemma re_match_None_iff: "re_match r s = None \<longleftrightarrow> matches r s [] = []"
  by (simp add: re_match_def split: list.splits)

lemma re_search_append: "re_match r s \<noteq> None \<Longrightarrow> re_search r (pre @ s) \<noteq> None"
proof (induction pre)
  case Nil
  then show ?case by (cases s) (auto split: option.splits)
next
  case (Cons c pre)
  then show ?case by (auto split: option.splits)
qed

lemma built_re_matches:
  assumes "num \<noteq> []" "list_all digit_or_dot num"
  shows "re_match built_re (''Documentation built in '' @ num @ '' seconds'' @ post) \<noteq> None"
proof -
  let ?s2 = "'' seconds'' @ post"
  have a: "matches (Lit ''Documentation built in '') (''Documentation built in '' @ num @ ?s2) []
             = [(num @ ?s2, [])]"
    by (rule matches_Lit_append)
  have b: "(?s2, []) \<in> set (matches (plus digit_or_dot) (num @ ?s2) [])"
    using assms by (rule matches_plus_run)
  have c: "matches (Lit '' seconds'') ?s2 [] = [(post, [])]"
    by (rule matches_Lit_append)
  have "(post, []) \<in> set (matches (Seq (plus digit_or_dot) (Lit '' seconds'')) (num @ ?s2) [])"
    unfolding matches_Seq_iff using b c by force
  then have "(post, []) \<in> set (matches built_re (''Documentation built in '' @ num @ ?s2) [])"
    unfolding built_re_def seqs.simps matches_Seq_iff using a by force
  then show ?thesis
    unfolding re_match_None_iff by auto
qed

section \<open>Boundary classification\<close>

text \<open>
  C4.  The build-complete test is the first one: a line that matches the build-complete
  pattern is classified \<open>BUILD_COMPLETE\<close>, whatever else it holds (a rebuild phrase, a
  server-started phrase) and whatever the previous line is.
\<close>

theorem build_complete_first:
  "re_search built_re line \<noteq> None \<Longrightarrow> detect_chunk_boundary line prev_line = BUILD_COMPLETE"
  by (simp add: detect_chunk_boundary_def)

text \<open>The crafted line of the spec: both trigger phrases, classified build-complete.\<close>

theorem build_complete_first_witness:
  "re_search built_re ''Documentation built in 1.5 seconds: Detected file changes'' \<noteq> None
   \<and> contains ''Documentation built in 1.5 seconds: Detected file changes'' ''Detected file changes''
   \<and> detect_chunk_boundary ''Documentation built in 1.5 seconds: Detected file changes'' None
       = BUILD_COMPLETE
   \<and> detect_chunk_boundary ''Documentation built in 1.5 seconds: Detected file changes'' None
       \<noteq> REBUILD_STARTED"
proof -
  let ?l = "''Documentation built in 1.5 seconds: Detected file changes''"
  have h: "re_search built_re ?l \<noteq> None"
    by code_simp
  have c: "contains ?l ''Detected file changes''"
    by code_simp
  have b: "detect_chunk_boundary ?l None = BUILD_COMPLETE"
    using h by (rule build_complete_first)
  have d: "detect_chunk_boundary ?l None \<noteq> REBUILD_STARTED"
    unfolding b by simp
  from h c b d show ?thesis
    by blast
qed

text \<open>
  C9 as stated fails: the pattern is matched case-sensitively, so the lower-case line
  is no boundary at all.
\<close>

theorem lowercase_built_counterexample:
  "detect_chunk_boundary ''documentation built in 1.00 seconds'' None = NONE
   \<and> detect_chunk_boundary ''documentation built in 1.00 seconds'' None \<noteq> BUILD_COMPLETE"
proof -
  have a: "detect_chunk_boundary ''documentation built in 1.00 seconds'' None = NONE"
    by code_simp
  show ?thesis
    unfolding a by simp
qed

text \<open>
  C9, amended.  The pattern tolerates the format around and inside the phrase, not its
  case: every line that holds \<open>Documentation built in\<close>, a non-empty run of digits and
  dots, and \<open>seconds\<close> (separated by single spaces, the capital D as written), with
  anything before and after, is classified \<open>BUILD_COMPLETE\<close>.
\<close>

theorem built_line_build_complete:
  assumes "num \<noteq> []" and "list_all digit_or_dot num"
  shows "detect_chunk_boundary (pre @ ''Documentation built in '' @ num @ '' seconds'' @ post)
           prev_line = BUILD_COMPLETE"
proof -
  have "re_search built_re (pre @ ''Documentation built in '' @ num @ '' seconds'' @ post) \<noteq> None"
    using assms by (intro re_search_append built_re_matches)
  then show ?thesis
    by (simp add: detect_chunk_boundary_def)
qed

theorem built_line_build_complete_witness:
  "detect_chunk_boundary ''INFO -  Documentation built in 78.99 seconds'' (Some '''') = BUILD_COMPLETE"
proof -
  have n: "''78.99'' \<noteq> []"
    by simp
  have d: "list_all digit_or_dot ''78.99''"
    by code_simp
  have "detect_chunk_boundary (''INFO -  '' @ ''Documentation built in '' @ ''78.99'' @ '' seconds'' @ [])
          (Some '''') = BUILD_COMPLETE"
    using n d by (rule built_line_build_complete)
  then show ?thesis
    by simp
qed

section \<open>Captured groups and totality\<close>

lemma matches_captures:
  "m \<in> set (matches r s g) \<Longrightarrow> n \<in> captures r \<union> fst ` set g \<Longrightarrow> n \<in> fst ` set (snd m)"
proof (induction r arbitrary: s g m)
  case (Chr P)
  then show ?case by (auto split: list.splits if_splits)
next
  case (Lit l)
  then show ?case by (auto split: if_splits)
next
  case (Seq r1 r2)
  from Seq.prems(1) obtain m1 where m1: "m1 \<in> set (matches r1 s g)"
    and m: "m \<in> set (matches r2 (fst m1) (snd m1))"
    by auto
  show ?case
  proof (cases "n \<in> captures r2")
    case True
    then show ?thesis using Seq.IH(2)[OF m] by simp
  next
    case False
    then have "n \<in> captures r1 \<union> fst ` set g" using Seq.prems(2) by auto
    then have "n \<in> fst ` set (snd m1)" using Seq.IH(1)[OF m1] by simp
    then show ?thesis using Seq.IH(2)[OF m] by simp
  qed
next
  case (Alt r1 r2)
  have n1: "n \<in> captures r1 \<union> fst ` set g" and n2: "n \<in> captures r2 \<union> fst ` set g"
    using Alt.prems(2) by auto
  from Alt.prems(1) have "m \<in> set (matches r1 s g) \<or> m \<in> set (matches r2 s g)"
    by simp
  then show ?case
    using Alt.IH(1)[OF _ n1] Alt.IH(2)[OF _ n2] by blast
next
  case (Group k r)
  from Group.prems(1) obtain m' where m': "m' \<in> set (matches r s g)"
    and m: "m = (fst m', (k, take (length s - length (fst m')) s) # snd m')"
    by auto
  show ?case
  proof (cases "n = k")
    case True
    then show ?thesis using m by simp
  next
    case False
    then have "n \<in> captures r \<union> fst ` set g" using Group.prems(2) by auto
    then have "n \<in> fst ` set (snd m')" using Group.IH[OF m'] by simp
    then show ?thesis using m by simp
  qed
qed auto

lemma re_match_captures:
  assumes "re_match r s = Some m" and "n \<in> captures r"
  shows "\<exists>v. match_group m n = Some v"
proof -
  from assms(1) have "m \<in> set (matches r s [])"
    by (auto simp: re_match_def split: list.splits)
  then have "n \<in> fst ` set (snd m)"
    using assms(2) by (intro matches_captures) auto
  then have "map_of (snd m) n \<noteq> None"
    by (simp add: map_of_eq_None_iff)
  then show ?thesis by (auto simp: match_group_def)
qed

lemma re_search_captures:
  "re_search r s = Some m \<Longrightarrow> n \<in> captures r \<Longrightarrow> \<exists>v. match_group m n = Some v"
  by (induction s) (auto split: option.splits dest: re_match_captures)

lemma captures_build_dir: "1 \<in> captures build_dir_re"
  by (simp add: build_dir_re_def)

lemma captures_breadcrumb: "2 \<in> captures breadcrumb_re"
  by (simp add: breadcrumb_re_def)

lemma py_index_in_range: "0 \<le> i \<Longrightarrow> i < int (length xs) \<Longrightarrow> py_index xs i = Inr (xs ! nat i)"
  by (simp add: py_index_def)

lemma find_file_path_total:
  "\<forall>j \<in> set js. 0 \<le> j \<and> j < int (length lines) \<Longrightarrow> \<exists>p. find_file_path lines js = Inr p"
proof (induction js)
  case Nil
  then show ?case by simp
next
  case (Cons j js)
  then have j: "py_index lines j = Inr (lines ! nat j)"
    by (simp add: py_index_in_range)
  from Cons obtain p where p: "find_file_path lines js = Inr p" by auto
  show ?case
    using j p by (auto split: option.splits dest: re_search_captures[OF _ captures_breadcrumb])
qed

lemma set_range_down: "set (range_down a b) = {j. b < j \<and> j \<le> a}"
proof -
  have "j \<in> set (range_down a b) \<longleftrightarrow> b < j \<and> j \<le> a" for j
  proof
    assume "j \<in> set (range_down a b)"
    then show "b < j \<and> j \<le> a" by (auto simp: range_down_def)
  next
    assume h: "b < j \<and> j \<le> a"
    then have "j = a - int (nat (a - j))" and "nat (a - j) < nat (a - b)" by auto
    then show "j \<in> set (range_down a b)"
      unfolding range_down_def by (metis atLeast0LessThan imageI lessThan_iff set_map set_upt)
  qed
  then show ?thesis by blast
qed

lemma collect_sections_step:
  "i < int (length lines) \<Longrightarrow> py_index lines i = Inr line \<Longrightarrow>
   collect_sections lines i st =
     (if strip line = ''Code block is:''
        then collect_sections lines (i + 1) (st\<lparr>in_code := True, in_output := False\<rparr>)
      else if strip line = ''Output is:''
        then collect_sections lines (i + 1) (st\<lparr>in_code := False, in_output := True\<rparr>)
      else if is_stop_line (strip line) then Inr (st, i)
      else collect_sections lines (i + 1) (collect_content st line))"
  by (subst collect_sections.simps) simp

lemma collect_sections_done:
  "\<not> i < int (length lines) \<Longrightarrow> collect_sections lines i st = Inr (st, i)"
  by (subst collect_sections.simps) simp

lemma collect_sections_total:
  "0 \<le> i \<Longrightarrow> \<exists>st' e. collect_sections lines i st = Inr (st', e)"
proof (induction lines i st rule: collect_sections.induct)
  case (1 lines i st)
  show ?case
  proof (cases "i < int (length lines)")
    case False
    then show ?thesis by (simp add: collect_sections_done)
  next
    case True
    have line: "py_index lines i = Inr (lines ! nat i)"
      using True "1.prems" by (simp add: py_index_in_range)
    have nn: "0 \<le> i + 1" using "1.prems" by simp
    show ?thesis
      using "1.IH"(1)[OF True line _ nn] "1.IH"(2)[OF True line _ _ nn] "1.IH"(3)[OF True line _ _ _ nn]
      unfolding collect_sections_step[OF True line]
      by (auto split: if_splits)
  qed
qed

lemma find_error_msg_nonempty: "find_error_msg ls \<noteq> []"
  by (induction ls) auto

lemma exec_issue_result:
  assumes "0 \<le> start" and "start < int (length lines)"
  shows "\<exists>issue e. parse_markdown_exec_issue lines start lvl = Inr (Some issue, e)
           \<and> source issue = ''markdown_exec'' \<and> level issue = lvl
           \<and> message issue \<noteq> [] \<and> start < e"
proof -
  have "\<forall>j \<in> set (range_down (start - 1) (max (- 1) (start - 50))). 0 \<le> j \<and> j < int (length lines)"
    using assms by (auto simp: set_range_down)
  then obtain p where p: "find_file_path lines (range_down (start - 1) (max (- 1) (start - 50))) = Inr p"
    using find_file_path_total by blast
  have "0 \<le> start + 1" using assms by simp
  then obtain st e where c: "collect_sections lines (start + 1) scan_init = Inr (st, e)"
    using collect_sections_total by blast
  have "start + 1 \<le> e" using c by (rule collect_sections_end)
  then show ?thesis
    using p c by (simp add: parse_markdown_exec_issue_def Let_def find_error_msg_nonempty)
qed

lemma parse_loop_total:
  "0 \<le> i \<Longrightarrow> \<exists>r. parse_loop lines i skip_until found = Inr r"
proof (induction lines i skip_until found rule: parse_loop.induct)
  case (1 lines i skip_until found)
  have nn: "0 \<le> i + 1" using "1.prems" by simp
  show ?case
  proof (cases "i < int (length lines)")
    case False
    then show ?thesis by (subst parse_loop.simps) simp
  next
    case len: True
    show ?thesis
    proof (cases "i < skip_until")
      case True
      then show ?thesis
        using "1.IH"(1)[OF len True nn] len by (subst parse_loop.simps) simp
    next
      case skip: False
      have line: "py_index lines i = Inr (lines ! nat i)"
        using len "1.prems" by (simp add: py_index_in_range)
      let ?line = "lines ! nat i"
      let ?lvl = "if contains ?line ''ERROR'' then ERROR else WARNING"
      show ?thesis
      proof (cases "contains ?line ''WARNING'' \<or> contains ?line ''ERROR''")
        case False
        then show ?thesis
          using "1.IH"(5)[OF len skip line False nn] len skip line
          by (subst parse_loop.simps) simp
      next
        case iss: True
        show ?thesis
        proof (cases "contains ?line ''markdown_exec''")
          case False
          then show ?thesis
            using "1.IH"(4)[OF len skip line iss False nn] len skip line iss
            by (subst parse_loop.simps) simp
        next
          case mx: True
          obtain issue e where p: "parse_markdown_exec_issue lines i ?lvl = Inr (Some issue, e)"
            and e: "i < e"
            using exec_issue_result[OF "1.prems" len] by blast
          have e0: "0 \<le> e" using e "1.prems" by simp
          show ?thesis
            using "1.IH"(3)[OF len skip line iss mx p refl refl e0] len skip line iss mx p
            by (subst parse_loop.simps) simp
        qed
      qed
    qed
  qed
qed

section \<open>The markdown_exec record\<close>

text \<open>
  C10.  For a start index inside the list, \<open>parse_markdown_exec_issue\<close> raises nothing
  and never returns \<open>None\<close> for the issue: the issue has source \<open>markdown_exec\<close>, the
  level passed in and a non-empty message, and the end index lies after the start index.
\<close>

theorem parse_markdown_exec_issue_never_none:
  assumes "0 \<le> start" and "start < int (length lines)"
  shows "\<exists>issue e. parse_markdown_exec_issue lines start lvl = Inr (Some issue, e)
           \<and> source issue = ''markdown_exec'' \<and> level issue = lvl
           \<and> message issue \<noteq> [] \<and> start < e"
  using assms by (rule exec_issue_result)

theorem parse_markdown_exec_issue_never_none_witness:
  "(0::int) \<le> 0 \<and> (0::int) < int (length [''WARNING -  markdown_exec: failed'', ''  no sections''])
   \<and> (\<exists>issue e. parse_markdown_exec_issue [''WARNING -  markdown_exec: failed'', ''  no sections''] 0 WARNING
                      = Inr (Some issue, e)
         \<and> source issue = ''markdown_exec'' \<and> level issue = WARNING
         \<and> message issue \<noteq> [] \<and> 0 < e)
   \<and> parse_markdown_exec_issue [''WARNING -  markdown_exec: failed'', ''  no sections''] 0 WARNING
       = Inr (Some \<lparr>level = WARNING, source = ''markdown_exec'', message = ''Code execution failed'',
                     file' = None, code = None, output' = None\<rparr>, 2)"
proof -
  let ?ls = "[''WARNING -  markdown_exec: failed'', ''  no sections'']"
  have a: "(0::int) \<le> 0"
    by simp
  have b: "(0::int) < int (length ?ls)"
    by simp
  have c: "parse_markdown_exec_issue ?ls 0 WARNING
       = Inr (Some \<lparr>level = WARNING, source = ''markdown_exec'', message = ''Code execution failed'',
                     file' = None, code = None, output' = None\<rparr>, 2)"
    by code_simp
  from a b c parse_markdown_exec_issue_never_none[OF a b, of WARNING] show ?thesis
    by blast
qed

section \<open>Build information\<close>

lemma last_match_Nil: "last_match r [] = None"
  by (simp add: last_match_def)

lemma last_match_Cons:
  "last_match r (l # ls) = (case last_match r ls of None \<Rightarrow> re_search r l | Some m \<Rightarrow> Some m)"
proof (cases "filter (\<lambda>l. re_search r l \<noteq> None) ls")
  case Nil
  then show ?thesis
    by (cases "re_search r l") (auto simp: last_match_def)
next
  case (Cons x xs)
  have "last (x # xs) \<in> set (filter (\<lambda>l. re_search r l \<noteq> None) ls)"
    unfolding Cons by (rule last_in_set) simp
  then obtain m where m: "re_search r (last (x # xs)) = Some m"
    by auto
  show ?thesis
    using Cons m by (cases "re_search r l") (auto simp: last_match_def)
qed

lemma extract_line_result:
  "extract_line info l =
     Inr \<lparr>server_url = (case re_search server_url_re l of
                           None \<Rightarrow> server_url info | Some m \<Rightarrow> match_group m 1),
          build_dir = (case re_search build_dir_re l of
                         None \<Rightarrow> build_dir info | Some m \<Rightarrow> map_option strip (match_group m 1)),
          build_time = (case re_search build_time_re l of
                          None \<Rightarrow> build_time info | Some m \<Rightarrow> match_group m 1)\<rparr>"
proof (cases "re_search build_dir_re l")
  case None
  then show ?thesis
    by (cases info) (simp add: extract_line_def Let_def split: option.splits)
next
  case (Some m)
  then obtain d where d: "match_group m 1 = Some d"
    using re_search_captures[OF Some captures_build_dir] by blast
  show ?thesis
    using Some d by (cases info) (simp add: extract_line_def Let_def split: option.splits)
qed

lemma extract_loop_result:
  "extract_loop info lines =
     Inr \<lparr>server_url = (case last_match server_url_re lines of
                           None \<Rightarrow> server_url info | Some m \<Rightarrow> match_group m 1),
          build_dir = (case last_match build_dir_re lines of
                         None \<Rightarrow> build_dir info | Some m \<Rightarrow> map_option strip (match_group m 1)),
          build_time = (case last_match build_time_re lines of
                          None \<Rightarrow> build_time info | Some m \<Rightarrow> match_group m 1)\<rparr>"
proof (induction lines arbitrary: info)
  case Nil
  then show ?case by (simp add: last_match_Nil)
next
  case (Cons l lines)
  show ?case
    by (simp add: extract_line_result Cons.IH last_match_Cons split: option.splits)
qed

text \<open>
  C5.  \<open>extract_build_info\<close> is last-write-wins: it raises nothing, and each field of
  the result is what the field's pattern captures in the last line of the list that the
  pattern matches (the build directory stripped), and \<open>None\<close> when no line matches.
\<close>

theorem extract_build_info_last_wins:
  "extract_build_info lines =
     Inr \<lparr>server_url = (case last_match server_url_re lines of
                           None \<Rightarrow> None | Some m \<Rightarrow> match_group m 1),
          build_dir = (case last_match build_dir_re lines of
                         None \<Rightarrow> None | Some m \<Rightarrow> map_option strip (match_group m 1)),
          build_time = (case last_match build_time_re lines of
                          None \<Rightarrow> None | Some m \<Rightarrow> match_group m 1)\<rparr>"
  by (simp add: extract_build_info_def extract_loop_result cong: option.case_cong)

text \<open>Two build-time lines: the second one's time is reported.\<close>

lemma extract_build_info_two_times:
  "extract_build_info [''INFO -  Documentation built in 1.00 seconds'',
                       ''INFO -  Detected file changes'',
                       ''INFO -  Documentation built in 0.50 seconds'']
     = Inr \<lparr>server_url = None, build_dir = None, build_time = Some ''0.50''\<rparr>"
  by code_simp

section \<open>Totality\<close>

text \<open>
  C8.  The classifier functions raise nothing: \<open>detect_chunk_boundary\<close> returns one of
  the five boundary values for every line and every optional previous line, and for every
  list of lines \<open>parse_mkdocs_output\<close> returns a list of issues and
  \<open>extract_build_info\<close> a build information record (the index reads of the loops stay
  inside the list, a group that is used has taken part in its match, and the loops end).
\<close>

theorem classifier_total:
  "detect_chunk_boundary line prev_line
     \<in> {BUILD_COMPLETE, SERVER_STARTED, REBUILD_STARTED, ERROR_BLOCK_END, NONE}
   \<and> (\<exists>found. parse_mkdocs_output lines = Inr found)
   \<and> (\<exists>info. extract_build_info lines = Inr info)"
proof -
  have a: "detect_chunk_boundary line prev_line
             \<in> {BUILD_COMPLETE, SERVER_STARTED, REBUILD_STARTED, ERROR_BLOCK_END, NONE}"
    by (cases "detect_chunk_boundary line prev_line") simp_all
  have b: "\<exists>found. parse_mkdocs_output lines = Inr found"
    unfolding parse_mkdocs_output_def by (rule parse_loop_total) simp
  have c: "\<exists>info. extract_build_info lines = Inr info"
    by (simp add: extract_build_info_def extract_loop_result cong: option.case_cong)
  from a b c show ?thesis by blast
qed

section \<open>Sections of a markdown_exec record\<close>

lemma collect_sections_scan:
  "i \<le> length ls \<Longrightarrow>
   collect_sections ls (int i) st =
     Inr (fst (scan_list (drop i ls) st), int (i + snd (scan_list (drop i ls) st)))"
proof (induction "length ls - i" arbitrary: i st)
  case 0
  then have "\<not> int i < int (length ls)" by simp
  then show ?case using 0 by (simp add: collect_sections_done)
next
  case (Suc n)
  then have lt: "int i < int (length ls)" and i: "i < length ls" by auto
  have line: "py_index ls (int i) = Inr (ls ! i)"
    using i by (simp add: py_index_in_range)
  have d: "drop i ls = ls ! i # drop (Suc i) ls"
    using i by (simp add: Cons_nth_drop_Suc)
  have n: "n = length ls - Suc i" using Suc.hyps(2) by simp
  have le: "Suc i \<le> length ls" using i by simp
  have IH: "collect_sections ls (int i + 1) st' =
      Inr (fst (scan_list (drop (Suc i) ls) st'), int (Suc i + snd (scan_list (drop (Suc i) ls) st')))"
    for st'
    using Suc.hyps(1)[OF n le, of st'] by (simp add: add.commute)
  show ?case
    unfolding collect_sections_step[OF lt line] d IH
    by (simp split: prod.splits)
qed

lemma collect_content_code:
  "in_code st \<Longrightarrow>
   foldl collect_content st blk = st\<lparr>code_lines := code_lines st @ map rstrip (filter nonblank blk)\<rparr>"
proof (induction blk arbitrary: st)
  case Nil
  then show ?case by simp
next
  case (Cons l blk)
  have "in_code (collect_content st l)"
    using Cons.prems by (simp add: collect_content_def Let_def)
  from Cons.IH[OF this] show ?case
    using Cons.prems by (simp add: collect_content_def Let_def nonblank_def)
qed

lemma collect_content_flags:
  "in_code (collect_content st l) = in_code st" "in_output (collect_content st l) = in_output st"
  by (simp_all add: collect_content_def Let_def split: option.splits)

lemma collect_content_output:
  assumes "\<not> in_code st" "in_output st"
  shows "output_lines (foldl collect_content st blk)
           = output_lines st @ map rstrip (filter nonblank blk)
         \<and> code_lines (foldl collect_content st blk) = code_lines st
         \<and> \<not> in_code (foldl collect_content st blk) \<and> in_output (foldl collect_content st blk)"
  using assms
proof (induction blk arbitrary: st)
  case Nil
  then show ?case by simp
next
  case (Cons l blk)
  have f: "\<not> in_code (collect_content st l)" "in_output (collect_content st l)"
    using Cons.prems by (simp_all add: collect_content_flags)
  have o: "output_lines (collect_content st l)
             = output_lines st @ (if nonblank l then [rstrip l] else [])"
    and c: "code_lines (collect_content st l) = code_lines st"
    using Cons.prems by (simp_all add: collect_content_def Let_def nonblank_def split: option.splits)
  from Cons.IH[OF f] show ?case
    by (simp add: o c)
qed

lemma collect_content_idle:
  "\<not> in_code st \<Longrightarrow> \<not> in_output st \<Longrightarrow> foldl collect_content st blk = st"
  by (induction blk) (simp_all add: collect_content_def Let_def)

lemma scan_list_plain:
  "list_all plain_line blk \<Longrightarrow>
   scan_list (blk @ ls) st =
     (fst (scan_list ls (foldl collect_content st blk)),
      length blk + snd (scan_list ls (foldl collect_content st blk)))"
  by (induction blk arbitrary: st) (simp_all add: plain_line_def split: prod.splits)

lemma markers_not_stop:
  "\<not> is_stop_line ''Code block is:''" "\<not> is_stop_line ''Output is:''"
  by code_simp+

lemma scan_list_stop: "is_stop_line (strip nxt) \<Longrightarrow> scan_list (nxt # ls) st = (st, 0)"
  using markers_not_stop by auto

lemma scan_list_code_marker:
  "strip l = ''Code block is:'' \<Longrightarrow>
   scan_list (l # ls) st =
     (fst (scan_list ls (st\<lparr>in_code := True, in_output := False\<rparr>)),
      Suc (snd (scan_list ls (st\<lparr>in_code := True, in_output := False\<rparr>))))"
  by (simp split: prod.splits)

lemma scan_list_output_marker:
  "strip l = ''Output is:'' \<Longrightarrow>
   scan_list (l # ls) st =
     (fst (scan_list ls (st\<lparr>in_code := False, in_output := True\<rparr>)),
      Suc (snd (scan_list ls (st\<lparr>in_code := False, in_output := True\<rparr>))))"
  by (simp split: prod.splits)

lemma exec_record_scan:
  assumes cb: "strip cb = ''Code block is:''" and ob: "strip ob = ''Output is:''"
    and gap: "list_all plain_line gap" and cd: "list_all plain_line code_blk"
    and out: "list_all plain_line out_blk" and nxt: "is_stop_line (strip nxt)"
  shows "\<exists>st. scan_list (gap @ cb # code_blk @ ob # out_blk @ nxt # rest) scan_init
           = (st, length gap + 1 + length code_blk + 1 + length out_blk)
         \<and> code_lines st = map rstrip (filter nonblank code_blk)
         \<and> output_lines st = map rstrip (filter nonblank out_blk)"
proof -
  define s1 where "s1 = scan_init\<lparr>in_code := True, in_output := False\<rparr>"
  define s2 where "s2 = foldl collect_content s1 code_blk"
  define s3 where "s3 = s2\<lparr>in_code := False, in_output := True\<rparr>"
  define s4 where "s4 = foldl collect_content s3 out_blk"
  have g: "foldl collect_content scan_init gap = scan_init"
    by (rule collect_content_idle) (simp_all add: scan_init_def)
  have s2: "s2 = s1\<lparr>code_lines := map rstrip (filter nonblank code_blk)\<rparr>"
    unfolding s2_def by (subst collect_content_code) (simp_all add: s1_def scan_init_def)
  have f3: "\<not> in_code s3" "in_output s3"
    by (simp_all add: s3_def)
  have o3: "output_lines s3 = []" "code_lines s3 = map rstrip (filter nonblank code_blk)"
    by (simp_all add: s3_def s2 s1_def scan_init_def)
  have s4: "output_lines s4 = map rstrip (filter nonblank out_blk)
            \<and> code_lines s4 = map rstrip (filter nonblank code_blk)"
    using collect_content_output[OF f3, of out_blk] unfolding o3 s4_def by simp
  have e: "scan_list (nxt # rest) s4 = (s4, 0)"
    using nxt by (rule scan_list_stop)
  have d: "scan_list (out_blk @ nxt # rest) s3 = (s4, length out_blk)"
    unfolding scan_list_plain[OF out] s4_def[symmetric] e by simp
  have c: "scan_list (ob # out_blk @ nxt # rest) s2 = (s4, Suc (length out_blk))"
    unfolding scan_list_output_marker[OF ob] s3_def[symmetric] d by simp
  have b: "scan_list (code_blk @ ob # out_blk @ nxt # rest) s1
             = (s4, length code_blk + Suc (length out_blk))"
    unfolding scan_list_plain[OF cd] s2_def[symmetric] c by simp
  have a: "scan_list (cb # code_blk @ ob # out_blk @ nxt # rest) scan_init
             = (s4, Suc (length code_blk + Suc (length out_blk)))"
    unfolding scan_list_code_marker[OF cb] s1_def[symmetric] b by simp
  have "scan_list (gap @ cb # code_blk @ ob # out_blk @ nxt # rest) scan_init
          = (s4, length gap + 1 + length code_blk + 1 + length out_blk)"
    unfolding scan_list_plain[OF gap] g a by simp
  then show ?thesis using s4 by blast
qed

lemma exec_issue_fields:
  assumes "find_file_path lines (range_down (start - 1) (max (- 1) (start - 50))) = Inr p"
    and "collect_sections lines (start + 1) scan_init = Inr (st, e)"
  shows "\<exists>issue. parse_markdown_exec_issue lines start lvl = Inr (Some issue, e)
           \<and> level issue = lvl \<and> source issue = ''markdown_exec''
           \<and> message issue = find_error_msg (rev (output_lines st))
           \<and> code issue = join_opt [CHR 0x0A] (code_lines st)
           \<and> output' issue = join_opt [CHR 0x0A] (output_lines st)"
  using assms by (simp add: parse_markdown_exec_issue_def Let_def)

text \<open>
  C2.  Record boundary precision.  The lines are a header at index \<open>start\<close>, lines that
  are neither markers nor top-level lines (blank lines, usually), the \<open>Code block is:\<close>
  marker, the code lines, the \<open>Output is:\<close> marker, the output lines, and a line of a
  top-level log-line shape (\<open>is_stop_line\<close>), followed by anything.  Then the issue's code
  is the non-blank code lines (right-stripped, joined by newlines) and its output the
  non-blank output lines; the end index is the index of the top-level line, which is not
  consumed.
\<close>

theorem exec_record_boundaries:
  assumes cb: "strip cb = ''Code block is:''" and ob: "strip ob = ''Output is:''"
    and gap: "list_all plain_line gap" and cd: "list_all plain_line code_blk"
    and out: "list_all plain_line out_blk" and nxt: "is_stop_line (strip nxt)"
  shows "\<exists>issue e.
           parse_markdown_exec_issue
             (pre @ header # gap @ cb # code_blk @ ob # out_blk @ nxt # rest)
             (int (length pre)) lvl = Inr (Some issue, e)
         \<and> code issue = join_opt [CHR 0x0A] (map rstrip (filter nonblank code_blk))
         \<and> output' issue = join_opt [CHR 0x0A] (map rstrip (filter nonblank out_blk))
         \<and> e = int (length pre + 1 + length gap + 1 + length code_blk + 1 + length out_blk)
         \<and> py_index (pre @ header # gap @ cb # code_blk @ ob # out_blk @ nxt # rest) e = Inr nxt"
proof -
  let ?ls = "pre @ header # gap @ cb # code_blk @ ob # out_blk @ nxt # rest"
  let ?n = "length gap + 1 + length code_blk + 1 + length out_blk"
  have lt: "int (length pre) < int (length ?ls)" by simp
  have "\<forall>j \<in> set (range_down (int (length pre) - 1) (max (- 1) (int (length pre) - 50))).
          0 \<le> j \<and> j < int (length ?ls)"
    by (auto simp: set_range_down)
  then obtain p where p: "find_file_path ?ls
      (range_down (int (length pre) - 1) (max (- 1) (int (length pre) - 50))) = Inr p"
    using find_file_path_total by blast
  obtain st where sc: "scan_list (gap @ cb # code_blk @ ob # out_blk @ nxt # rest) scan_init = (st, ?n)"
    and c: "code_lines st = map rstrip (filter nonblank code_blk)"
    and o: "output_lines st = map rstrip (filter nonblank out_blk)"
    using exec_record_scan[OF cb ob gap cd out nxt] by blast
  have dr: "drop (Suc (length pre)) ?ls = gap @ cb # code_blk @ ob # out_blk @ nxt # rest"
    by simp
  have le: "Suc (length pre) \<le> length ?ls" by simp
  have "collect_sections ?ls (int (Suc (length pre))) scan_init
          = Inr (st, int (Suc (length pre) + ?n))"
    unfolding collect_sections_scan[OF le] dr sc by simp
  then have cs: "collect_sections ?ls (int (length pre) + 1) scan_init
          = Inr (st, int (length pre + 1 + ?n))"
    by (simp add: add.commute)
  define k where "k = length pre + 1 + ?n"
  have kl: "k = length (pre @ header # gap @ cb # code_blk @ ob # out_blk)"
    by (simp add: k_def)
  have "(pre @ header # gap @ cb # code_blk @ ob # out_blk @ nxt # rest) ! k = nxt"
    unfolding kl using nth_append_length[of "pre @ header # gap @ cb # code_blk @ ob # out_blk" nxt rest]
    by simp
  moreover have "k < length ?ls"
    by (simp add: k_def)
  ultimately have ix: "py_index ?ls (int k) = Inr nxt"
    by (simp add: py_index_def)
  have cs': "collect_sections ?ls (int (length pre) + 1) scan_init = Inr (st, int k)"
    using cs by (simp add: k_def)
  obtain issue where i1: "parse_markdown_exec_issue ?ls (int (length pre)) lvl = Inr (Some issue, int k)"
    and i2: "code issue = join_opt [CHR 0x0A] (map rstrip (filter nonblank code_blk))"
    and i3: "output' issue = join_opt [CHR 0x0A] (map rstrip (filter nonblank out_blk))"
    using exec_issue_fields[OF p cs', of lvl] c o by auto
  have keq: "int k = int (length pre + 1 + length gap + 1 + length code_blk + 1 + length out_blk)"
    by (simp add: k_def)
  show ?thesis
    using i1 i2 i3 ix keq by (intro exI[of _ issue] exI[of _ "int k"] conjI)
qed

theorem exec_record_boundaries_witness:
  "strip ''Code block is:'' = ''Code block is:'' \<and> strip ''Output is:'' = ''Output is:''
   \<and> list_all plain_line [''''] \<and> list_all plain_line ['''', ''  print('hello')'', '''']
   \<and> list_all plain_line ['''', ''  some output'', '''']
   \<and> is_stop_line (strip ''INFO -  Building documentation to directory: /path'')
   \<and> (\<exists>issue e.
         parse_markdown_exec_issue
           ([] @ ''WARNING -  markdown_exec: Execution of python code block exited with errors''
               # [''''] @ ''Code block is:'' # ['''', ''  print('hello')'', '''']
               @ ''Output is:'' # ['''', ''  some output'', '''']
               @ ''INFO -  Building documentation to directory: /path'' # [''INFO -  More info''])
           (int (length ([] :: string list))) WARNING = Inr (Some issue, e)
         \<and> code issue = Some ''  print('hello')''
         \<and> output' issue = Some ''  some output''
         \<and> e = 10)"
proof -
  have h1: "strip ''Code block is:'' = ''Code block is:''"
    by code_simp
  have h2: "strip ''Output is:'' = ''Output is:''"
    by code_simp
  have h3: "list_all plain_line ['''']"
    by code_simp
  have h4: "list_all plain_line ['''', ''  print('hello')'', '''']"
    by code_simp
  have h5: "list_all plain_line ['''', ''  some output'', '''']"
    by code_simp
  have h6: "is_stop_line (strip ''INFO -  Building documentation to directory: /path'')"
    by code_simp
  have c: "join_opt [CHR 0x0A] (map rstrip (filter nonblank ['''', ''  print('hello')'', '''']))
             = Some ''  print('hello')''"
    by code_simp
  have o: "join_opt [CHR 0x0A] (map rstrip (filter nonblank ['''', ''  some output'', '''']))
             = Some ''  some output''"
    by code_simp
  have n: "int (length ([] :: string list) + 1 + length [''''] + 1
             + length ['''', ''  print('hello')'', ''''] + 1
             + length ['''', ''  some output'', '''']) = 10"
    by simp
  from exec_record_boundaries[OF h1 h2 h3 h4 h5 h6, of "[]"
      "''WARNING -  markdown_exec: Execution of python code block exited with errors''"
      "[''INFO -  More info'']" WARNING]
  have "\<exists>issue e.
         parse_markdown_exec_issue
           ([] @ ''WARNING -  markdown_exec: Execution of python code block exited with errors''
               # [''''] @ ''Code block is:'' # ['''', ''  print('hello')'', '''']
               @ ''Output is:'' # ['''', ''  some output'', '''']
               @ ''INFO -  Building documentation to directory: /path'' # [''INFO -  More info''])
           (int (length ([] :: string list))) WARNING = Inr (Some issue, e)
         \<and> code issue = Some ''  print('hello')''
         \<and> output' issue = Some ''  some output''
         \<and> e = 10"
    unfolding c o n by blast
  with h1 h2 h3 h4 h5 h6 show ?thesis
    by blast
qed

lemma find_error_msg_find:
  "find_error_msg ls =
     (case find error_line (map strip ls) of None \<Rightarrow> ''Code execution failed'' | Some l \<Rightarrow> l)"
  by (induction ls) (auto simp: error_line_def)

text \<open>
  The spec's test of the reverse selection: when the captured output lines hold a line
  that passes the test and no later line does, its stripped text is what the loop
  returns, wherever the line stands.
\<close>

lemma last_error_line_selected:
  assumes "error_line (strip l)" and "list_all (\<lambda>x. \<not> error_line (strip x)) after"
  shows "find_error_msg (rev (before @ l # after)) = strip l"
proof -
  have "find error_line (map strip (rev after) @ strip l # map strip (rev before)) = Some (strip l)"
    using assms by (induction after rule: rev_induct) (simp_all add: list_all_iff)
  then show ?thesis
    by (simp add: find_error_msg_find)
qed

text \<open>
  C3, amended.  The message of the issue is found by scanning the captured output lines
  (those joined in the issue's output) from the last to the first: the first stripped line
  that holds \<open>Error:\<close> or \<open>Exception:\<close> and does not start with \<open>File \<close> is the
  message, and \<open>Code execution failed\<close> is the message when there is none.
\<close>

theorem exec_message_selection:
  assumes "0 \<le> start" and "start < int (length lines)"
  shows "\<exists>st e issue.
           collect_sections lines (start + 1) scan_init = Inr (st, e)
         \<and> parse_markdown_exec_issue lines start lvl = Inr (Some issue, e)
         \<and> output' issue = join_opt [CHR 0x0A] (output_lines st)
         \<and> message issue =
             (case find error_line (rev (map strip (output_lines st))) of
                None \<Rightarrow> ''Code execution failed''
              | Some l \<Rightarrow> l)"
proof -
  have "\<forall>j \<in> set (range_down (start - 1) (max (- 1) (start - 50))). 0 \<le> j \<and> j < int (length lines)"
    using assms by (auto simp: set_range_down)
  then obtain p where p: "find_file_path lines (range_down (start - 1) (max (- 1) (start - 50))) = Inr p"
    using find_file_path_total by blast
  have "0 \<le> start + 1" using assms by simp
  then obtain st e where c: "collect_sections lines (start + 1) scan_init = Inr (st, e)"
    using collect_sections_total by blast
  obtain issue where "parse_markdown_exec_issue lines start lvl = Inr (Some issue, e)"
    and "message issue = find_error_msg (rev (output_lines st))"
    and "output' issue = join_opt [CHR 0x0A] (output_lines st)"
    using exec_issue_fields[OF p c, of lvl] by blast
  then show ?thesis
    using c by (auto simp: find_error_msg_find rev_map)
qed

theorem exec_message_selection_witness:
  "(0::int) \<le> 0
   \<and> (0::int) < int (length [''WARNING -  markdown_exec: failed'', ''Output is:'',
                              ''  ValueError: bad value'', ''  (see the log)'', ''INFO -  done''])
   \<and> (\<exists>st e issue.
         collect_sections [''WARNING -  markdown_exec: failed'', ''Output is:'',
                           ''  ValueError: bad value'', ''  (see the log)'', ''INFO -  done'']
           (0 + 1) scan_init = Inr (st, e)
       \<and> parse_markdown_exec_issue [''WARNING -  markdown_exec: failed'', ''Output is:'',
                           ''  ValueError: bad value'', ''  (see the log)'', ''INFO -  done'']
           0 WARNING = Inr (Some issue, e)
       \<and> output' issue = join_opt [CHR 0x0A] (output_lines st)
       \<and> message issue =
             (case find error_line (rev (map strip (output_lines st))) of
                None \<Rightarrow> ''Code execution failed''
              | Some l \<Rightarrow> l))
   \<and> map_sum id (map_prod (map_option message) id)
        (parse_markdown_exec_issue [''WARNING -  markdown_exec: failed'', ''Output is:'',
                           ''  ValueError: bad value'', ''  (see the log)'', ''INFO -  done'']
           0 WARNING) = Inr (Some ''ValueError: bad value'', 4)"
proof -
  let ?ls = "[''WARNING -  markdown_exec: failed'', ''Output is:'',
              ''  ValueError: bad value'', ''  (see the log)'', ''INFO -  done'']"
  have a: "(0::int) \<le> 0"
    by simp
  have b: "(0::int) < int (length ?ls)"
    by simp
  have c: "map_sum id (map_prod (map_option message) id) (parse_markdown_exec_issue ?ls 0 WARNING)
             = Inr (Some ''ValueError: bad value'', 4)"
    by code_simp
  from a b c exec_message_selection[OF a b, of WARNING] show ?thesis
    by blast
qed

text \<open>
  C3 as stated fails for warning classes: the reverse loop looks for \<open>Error:\<close> and
  \<open>Exception:\<close> only, so an output line \<open>UserWarning: ...\<close> is not selected and the
  message is the placeholder.
\<close>

theorem warning_class_counterexample:
  "contains ''UserWarning: deprecated call'' ''Warning:''
   \<and> parse_markdown_exec_issue
        [''WARNING -  markdown_exec: failed'', ''Output is:'', ''  UserWarning: deprecated call'',
         ''INFO -  done''] 0 WARNING
     = Inr (Some \<lparr>level = WARNING, source = ''markdown_exec'', message = ''Code execution failed'',
                   file' = None, code = None, output' = Some ''  UserWarning: deprecated call''\<rparr>, 3)"
proof -
  have a: "contains ''UserWarning: deprecated call'' ''Warning:''"
    by code_simp
  have b: "parse_markdown_exec_issue
        [''WARNING -  markdown_exec: failed'', ''Output is:'', ''  UserWarning: deprecated call'',
         ''INFO -  done''] 0 WARNING
     = Inr (Some \<lparr>level = WARNING, source = ''markdown_exec'', message = ''Code execution failed'',
                   file' = None, code = None, output' = Some ''  UserWarning: deprecated call''\<rparr>, 3)"
    by code_simp
  from a b show ?thesis
    by blast
qed

section \<open>Deduplication\<close>


section \<open>Refreshing from the state file\<close>

text \<open>
  C7 as stated fails for the build status: it is copied from the snapshot before the
  timestamps are compared, so a stale snapshot changes it (and the build start time).
\<close>

theorem stale_snapshot_counterexample:
  "state_timestamp
     (\<lparr>state_build_status = ''building'', state_build_started_at = Some 9, state_timestamp = 5,
        state_issues = [], state_info_messages = [], state_build_info = (),
        state_raw_output = []\<rparr> :: (unit, unit, unit) StateFileData)
     \<le> last_state_timestamp
         ((init_server None False True () :: (unit, unit, unit) DocsFilterServer)
            \<lparr>last_state_timestamp := 10\<rparr>)
   \<and> build_status
       ((init_server None False True () :: (unit, unit, unit) DocsFilterServer)
          \<lparr>last_state_timestamp := 10\<rparr>) = ''complete''
   \<and> fst (refresh_from_state_file
       (Some \<lparr>state_build_status = ''building'', state_build_started_at = Some 9,
               state_timestamp = 5, state_issues = [], state_info_messages = [],
               state_build_info = (), state_raw_output = []\<rparr>)
       ((init_server None False True () :: (unit, unit, unit) DocsFilterServer)
          \<lparr>last_state_timestamp := 10\<rparr>)) = False
   \<and> build_status (snd (refresh_from_state_file
       (Some \<lparr>state_build_status = ''building'', state_build_started_at = Some 9,
               state_timestamp = 5, state_issues = [], state_info_messages = [],
               state_build_info = (), state_raw_output = []\<rparr>)
       ((init_server None False True () :: (unit, unit, unit) DocsFilterServer)
          \<lparr>last_state_timestamp := 10\<rparr>))) = ''building''"
  by (simp add: refresh_from_state_file_def init_server_def)

text \<open>
  C7, amended.  A snapshot whose timestamp is not newer than the last one seen is
  ignored as far as the data goes: the refresh returns false and leaves the issues, the
  info messages, the build info, the raw output, the last-seen timestamp and the
  identifier cache unchanged.  The build status and the build start time are the
  snapshot's whenever the server is in watch mode, stale or not.
\<close>

theorem stale_snapshot_keeps_data:
  assumes "state_timestamp snap \<le> last_state_timestamp self"
  shows "fst (refresh_from_state_file (Some snap) self) = False
       \<and> issues (snd (refresh_from_state_file (Some snap) self)) = issues self
       \<and> info_messages (snd (refresh_from_state_file (Some snap) self)) = info_messages self
       \<and> build_info (snd (refresh_from_state_file (Some snap) self)) = build_info self
       \<and> raw_output (snd (refresh_from_state_file (Some snap) self)) = raw_output self
       \<and> last_state_timestamp (snd (refresh_from_state_file (Some snap) self))
           = last_state_timestamp self
       \<and> issue_ids (snd (refresh_from_state_file (Some snap) self)) = issue_ids self
       \<and> build_status (snd (refresh_from_state_file (Some snap) self))
           = (if watch_mode self then state_build_status snap else build_status self)
       \<and> build_started_at (snd (refresh_from_state_file (Some snap) self))
           = (if watch_mode self then state_build_started_at snap else build_started_at self)"
  using assms by (simp add: refresh_from_state_file_def Let_def)

theorem stale_snapshot_keeps_data_witness:
  "state_timestamp
     (\<lparr>state_build_status = ''complete'', state_build_started_at = None, state_timestamp = 5,
        state_issues = [''stale issue''], state_info_messages = [], state_build_info = (),
        state_raw_output = [''stale line'']\<rparr> :: (string, unit, unit) StateFileData)
     \<le> last_state_timestamp
         ((init_server None False True () :: (string, unit, unit) DocsFilterServer)
            \<lparr>last_state_timestamp := 5, issues := [''current issue'']\<rparr>)
   \<and> fst (refresh_from_state_file
       (Some \<lparr>state_build_status = ''complete'', state_build_started_at = None,
               state_timestamp = 5, state_issues = [''stale issue''], state_info_messages = [],
               state_build_info = (), state_raw_output = [''stale line'']\<rparr>)
       ((init_server None False True () :: (string, unit, unit) DocsFilterServer)
          \<lparr>last_state_timestamp := 5, issues := [''current issue'']\<rparr>)) = False
   \<and> issues (snd (refresh_from_state_file
       (Some \<lparr>state_build_status = ''complete'', state_build_started_at = None,
               state_timestamp = 5, state_issues = [''stale issue''], state_info_messages = [],
               state_build_info = (), state_raw_output = [''stale line'']\<rparr>)
       ((init_server None False True () :: (string, unit, unit) DocsFilterServer)
          \<lparr>last_state_timestamp := 5, issues := [''current issue'']\<rparr>)))
       = [''current issue'']"
proof -
  let ?snap = "\<lparr>state_build_status = ''complete'', state_build_started_at = None,
                 state_timestamp = 5, state_issues = [''stale issue''], state_info_messages = [],
                 state_build_info = (), state_raw_output = [''stale line'']\<rparr>
               :: (string, unit, unit) StateFileData"
  let ?self = "(init_server None False True () :: (string, unit, unit) DocsFilterServer)
                 \<lparr>last_state_timestamp := 5, issues := [''current issue'']\<rparr>"
  have h: "state_timestamp ?snap \<le> last_state_timestamp ?self"
    by simp
  have i: "issues ?self = [''current issue'']"
    by simp
  from stale_snapshot_keeps_data[OF h] h i show ?thesis
    by metis
qed

section \<open>Issue identifiers\<close>










end
